theory Spec2Isabelle
  imports Main "HOL-Library.Sublist" "HOL-Library.AList"
begin

section \<open>Python strings\<close>

text \<open>
  A Python \<open>str\<close> is modelled as a \<open>string\<close>, one \<open>char\<close> per code point below 256.
  The functions of this section are the methods of \<open>str\<close> and of \<open>textwrap\<close> that
  \<open>rendering.py\<close> calls.
\<close>

datatype pyerror = ValueError string | KeyError string | ConversionError string








fun contains :: "string \<Rightarrow> string \<Rightarrow> bool" where
  \<comment> \<open>\<open>sub in s\<close>\<close>
  "contains sub [] = (sub = [])"
| "contains sub (c # cs) = (prefix sub (c # cs) \<or> contains sub cs)"

function replace_scan :: "string \<Rightarrow> string \<Rightarrow> string \<Rightarrow> string" where
  "replace_scan old new [] = []"
| "replace_scan old new (c # cs) =
     (if old \<noteq> [] \<and> prefix old (c # cs)
      then new @ replace_scan old new (drop (length old) (c # cs))
      else c # replace_scan old new cs)"
  by pat_completeness auto
termination
  by (relation "measure (\<lambda>(old, new, s). length s)") (auto simp: neq_Nil_conv)

definition replace :: "string \<Rightarrow> string \<Rightarrow> string \<Rightarrow> string" where
  \<comment> \<open>\<open>s.replace(old, new)\<close>: every occurrence, left to right, not overlapping; an empty
      \<open>old\<close> matches before every character and at the end\<close>
  "replace s old new =
     (if old = [] then new @ concat (map (\<lambda>c. c # new) s) else replace_scan old new s)"





section \<open>Block placement: \<open>rendering.py\<close>, \<open>code_block\<close>, \<open>tabbed\<close>, \<open>add_source\<close>\<close>









section \<open>The tree processors of a renderer\<close>

text \<open>
  \<open>md.treeprocessors\<close> is a \<open>Registry\<close> of the Markdown library: \<open>register\<close> replaces an
  entry of the same name, and the processors run by decreasing priority, entries of equal
  priority in the order of registration. \<open>rendering.py\<close> relies on that order: it registers
  at priority \<open>4\<close> to run "right after toc" and at priority \<open>1\<close> to run "close to the end".
  An entry is modelled by its name and priority.
\<close>

type_synonym registry = "(string \<times> int) list"

definition register :: "string \<Rightarrow> int \<Rightarrow> registry \<Rightarrow> registry" where
  "register name priority reg = filter (\<lambda>(n, p). n \<noteq> name) reg @ [(name, priority)]"

definition run_order :: "registry \<Rightarrow> string list" where
  \<comment> \<open>the names in the order in which the processors run\<close>
  "run_order reg = map fst (sort_key (\<lambda>(n, p). - p) reg)"

definition InsertHeadings_name :: string where
  "InsertHeadings_name = ''markdown_exec_insert_headings''"

definition RemoveHeadings_name :: string where
  "RemoveHeadings_name = ''markdown_exec_remove_headings''"

definition extendMarkdown :: "registry \<Rightarrow> registry" where
  \<comment> \<open>\<open>MarkdownExecExtension.extendMarkdown\<close>, on \<open>md.treeprocessors\<close>\<close>
  "extendMarkdown treeprocessors =
     register RemoveHeadings_name 4 (register InsertHeadings_name 3 treeprocessors)"

definition host_treeprocessors :: registry where
  \<comment> \<open>the tree processors of a Markdown instance with the \<open>toc\<close> extension, which
      registers its processor at priority \<open>5\<close>\<close>
  "host_treeprocessors = [(''inline'', 20), (''prettify'', 10), (''unescape'', 0), (''toc'', 5)]"

section \<open>Element trees\<close>

text \<open>
  An \<open>xml.etree.ElementTree.Element\<close>: tag, attributes, text, tail (both may be \<open>None\<close>) and
  children. The processors of \<open>extension.py\<close> change a tree in place; here they return the
  changed tree. A child is known by its position: two children that look alike are still
  two objects.
\<close>

datatype element =
  Element (tag: string) (attrib: "(string \<times> string) list")
    (text_el: "string option") (tail_el: "string option") (children: "element list")

definition get :: "element \<Rightarrow> string \<Rightarrow> string option" where
  \<comment> \<open>\<open>el.get(key)\<close>\<close>
  "get el key = map_of (attrib el) key"

fun iter :: "element \<Rightarrow> element list" where
  \<comment> \<open>\<open>el.iter()\<close> on a tree that is not changed meanwhile: the element, then its
      descendants, in document order\<close>
  "iter (Element tg ats tx ta ch) = Element tg ats tx ta ch # concat (map iter ch)"

definition or_empty :: "string option \<Rightarrow> string" where
  \<comment> \<open>\<open>s or ""\<close>\<close>
  "or_empty s = (case s of None \<Rightarrow> [] | Some t \<Rightarrow> t)"

definition marker_div :: "element list \<Rightarrow> element" where
  \<comment> \<open>\<open>Element("div", {"class": "markdown-exec"})\<close>, extended with the headings\<close>
  "marker_div hs = Element ''div'' [(''class'', ''markdown-exec'')] None None hs"

definition is_marker :: "element \<Rightarrow> bool" where
  \<comment> \<open>\<open>el.tag == "div" and el.get("class") == "markdown-exec"\<close>\<close>
  "is_marker el = (tag el = ''div'' \<and> get el ''class'' = Some ''markdown-exec'')"

subsection \<open>\<open>InsertHeadings.run\<close>\<close>

text \<open>
  \<open>self.headings\<close> is the table filled by \<open>convert\<close>, from converted text to headings.
  \<open>self.md.stash\<close> is not assigned in the files at hand: it is a parameter, a dictionary
  from texts to keys of the table. Both are association lists. The marker container is
  given the heading objects of the table themselves; a tree of values holds equal headings
  instead, which is the same tree as long as the loop changes no heading.

  The loop runs over \<open>root.iter()\<close> while its body appends to the element just reached, so
  the marker and the headings below it are reached later in the same loop: a heading whose
  text is in the stash gets a marker of its own, and so on without end when that marker
  holds the heading again. The fuel bounds the depth to which the loop may descend;
  \<open>None\<close> is a loop that has not ended within it.
\<close>

definition insert_visit ::
  "(string \<times> string) list \<Rightarrow> (string \<times> element list) list \<Rightarrow> element \<Rightarrow> pyerror + element" where
  \<comment> \<open>the body of the loop, at \<open>el\<close>\<close>
  "insert_visit stash headings el =
     (case text_el el of
        None \<Rightarrow> Inr el
      | Some t \<Rightarrow>
         (case map_of stash t of
            None \<Rightarrow> Inr el
          | Some key \<Rightarrow>
             (case map_of headings key of
                None \<Rightarrow> Inl (KeyError key)
              | Some hs \<Rightarrow>
                 Inr (Element (tag el) (attrib el) (text_el el) (tail_el el)
                        (children el @ [marker_div hs])))))"

fun insert_iter ::
  "nat \<Rightarrow> (string \<times> string) list \<Rightarrow> (string \<times> element list) list \<Rightarrow> element
     \<Rightarrow> (pyerror + element) option"
and insert_iter_children ::
  "nat \<Rightarrow> (string \<times> string) list \<Rightarrow> (string \<times> element list) list \<Rightarrow> element list
     \<Rightarrow> (pyerror + element list) option" where
  "insert_iter 0 stash headings el = None"
| "insert_iter (Suc n) stash headings el =
     (case insert_visit stash headings el of
        Inl e \<Rightarrow> Some (Inl e)
      | Inr el' \<Rightarrow>
         (case insert_iter_children n stash headings (children el') of
            None \<Rightarrow> None
          | Some (Inl e) \<Rightarrow> Some (Inl e)
          | Some (Inr ch) \<Rightarrow>
              Some (Inr (Element (tag el') (attrib el') (text_el el') (tail_el el') ch))))"
| "insert_iter_children n stash headings [] = Some (Inr [])"
| "insert_iter_children n stash headings (c # cs) =
     (case insert_iter n stash headings c of
        None \<Rightarrow> None
      | Some (Inl e) \<Rightarrow> Some (Inl e)
      | Some (Inr c') \<Rightarrow>
         (case insert_iter_children n stash headings cs of
            None \<Rightarrow> None
          | Some (Inl e) \<Rightarrow> Some (Inl e)
          | Some (Inr cs') \<Rightarrow> Some (Inr (c' # cs'))))"

definition InsertHeadings_run ::
  "nat \<Rightarrow> (string \<times> string) list \<Rightarrow> (string \<times> element list) list \<Rightarrow> element
     \<Rightarrow> (pyerror + element) option" where
  "InsertHeadings_run fuel stash headings root =
     (if headings = [] then Some (Inr root) else insert_iter fuel stash headings root)"

subsection \<open>\<open>RemoveHeadings.run\<close>\<close>

text \<open>
  \<open>reversed(root)\<close> reads \<open>root[i]\<close> for \<open>i\<close> from the last index down to \<open>0\<close>, on the list
  as it is at that moment, and stops at an index that is out of range.
\<close>

fun remove_loop :: "nat \<Rightarrow> element list \<Rightarrow> string \<Rightarrow> element list \<times> string" where
  \<comment> \<open>the loop with \<open>i\<close> indices still to read, on the children and \<open>carry_text\<close>\<close>
  "remove_loop 0 ch carry_text = (ch, carry_text)"
| "remove_loop (Suc i) ch carry_text =
     (if i < length ch then
        (let el = ch ! i in
         if is_marker el
         then remove_loop i (take i ch @ drop (Suc i) ch) (or_empty (text_el el) @ carry_text)
         else if carry_text \<noteq> []
         then remove_loop i
                (ch[i := Element (tag el) (attrib el) (text_el el)
                            (Some (or_empty (tail_el el) @ carry_text)) (children el)]) []
         else remove_loop i ch carry_text)
      else (ch, carry_text))"

definition RemoveHeadings_run :: "element \<Rightarrow> element" where
  "RemoveHeadings_run root =
     (case remove_loop (length (children root)) (children root) [] of
        (ch, carry_text) \<Rightarrow>
          if carry_text \<noteq> []
          then Element (tag root) (attrib root) (Some (or_empty (text_el root) @ carry_text))
                 (tail_el root) ch
          else Element (tag root) (attrib root) (text_el root) (tail_el root) ch)"

definition markers :: "element \<Rightarrow> element list" where
  \<comment> \<open>the marker containers of a tree\<close>
  "markers root = filter is_marker (iter root)"

subsection \<open>What the Insertion transform is to build\<close>







section \<open>The heading-harvesting transform: \<open>_HeadingReportingTreeprocessor\<close>\<close>

text \<open>
  \<open>copy.copy(el)\<close> makes a new element with the tag, attributes, text and tail of \<open>el\<close> and a
  list of its own holding the same children, and \<open>del el[-1]\<close> changes the list of the copy.
  What this leaves of the tree it was given is read off a store of elements: an element is
  an address, the index of its cell; a cell holds the addresses of the children; a new
  element takes the next address. The list \<open>self.headings\<close> holds addresses too.
  \<open>permalink_class\<close> is the setting of the host's \<open>toc\<close> tree processor, a parameter.
\<close>

record cell =
  c_tag :: string
  c_attrib :: "(string \<times> string) list"
  c_text :: "string option"
  c_tail :: "string option"
  c_children :: "nat list"

record harvest =
  cells :: "cell list"
  reported :: "nat list"

definition is_heading_tag :: "string \<Rightarrow> bool" where
  \<comment> \<open>\<open>re.compile("[Hh][1-6]").fullmatch(tag)\<close>\<close>
  "is_heading_tag tg =
     (case tg of
        [c, d] \<Rightarrow> c \<in> set ''Hh'' \<and> d \<in> set ''123456''
      | _ \<Rightarrow> False)"

definition has_permalink :: "string \<Rightarrow> cell list \<Rightarrow> cell \<Rightarrow> bool option" where
  \<comment> \<open>\<open>len(el) > 0 and el[-1].get("class") == permalink_class\<close>; \<open>None\<close> when the last
      child is no element of the store\<close>
  "has_permalink permalink_class h el =
     (if c_children el = [] then Some False
      else if last (c_children el) < length h
      then Some (map_of (c_attrib (h ! last (c_children el))) ''class'' = Some permalink_class)
      else None)"

definition harvest_visit :: "string \<Rightarrow> nat \<Rightarrow> harvest \<Rightarrow> harvest option" where
  \<comment> \<open>the body of the loop, at the element of address \<open>a\<close>\<close>
  "harvest_visit permalink_class a st =
     (let el = cells st ! a in
      if is_heading_tag (c_tag el)
      then
        (case has_permalink permalink_class (cells st) el of
           None \<Rightarrow> None
         | Some p \<Rightarrow>
            (let copy = (if p then el\<lparr>c_children := butlast (c_children el)\<rparr> else el)
             in Some (st\<lparr>cells := cells st @ [copy],
                          reported := reported st @ [length (cells st)]\<rparr>)))
      else Some st)"

fun harvest_walk :: "nat \<Rightarrow> string \<Rightarrow> nat \<Rightarrow> harvest \<Rightarrow> harvest option"
and harvest_walk_children :: "nat \<Rightarrow> string \<Rightarrow> nat list \<Rightarrow> harvest \<Rightarrow> harvest option" where
  \<comment> \<open>the loop over \<open>root.iter()\<close>; the fuel bounds the depth, \<open>None\<close> is a walk that has
      not ended within it or has left the store\<close>
  "harvest_walk 0 permalink_class a st = None"
| "harvest_walk (Suc n) permalink_class a st =
     (if a < length (cells st)
      then
        (case harvest_visit permalink_class a st of
           None \<Rightarrow> None
         | Some st' \<Rightarrow> harvest_walk_children n permalink_class (c_children (cells st' ! a)) st')
      else None)"
| "harvest_walk_children n permalink_class [] st = Some st"
| "harvest_walk_children n permalink_class (c # cs) st =
     (case harvest_walk n permalink_class c st of
        None \<Rightarrow> None
      | Some st' \<Rightarrow> harvest_walk_children n permalink_class cs st')"

definition HeadingReporting_run :: "nat \<Rightarrow> string \<Rightarrow> nat \<Rightarrow> harvest \<Rightarrow> harvest option" where
  "HeadingReporting_run fuel permalink_class root st = harvest_walk fuel permalink_class root st"

text \<open>
  The elements of a tree in a store, in document order: \<open>root.iter()\<close> on a store that
  does not change. It is \<open>Some\<close> when the store holds a tree below the root, of depth at
  most the fuel.
\<close>

fun tree_iter :: "nat \<Rightarrow> cell list \<Rightarrow> nat \<Rightarrow> nat list option"
and tree_iter_children :: "nat \<Rightarrow> cell list \<Rightarrow> nat list \<Rightarrow> nat list option" where
  "tree_iter 0 h a = None"
| "tree_iter (Suc n) h a =
     (if a < length h
      then (case tree_iter_children n h (c_children (h ! a)) of
              None \<Rightarrow> None
            | Some below \<Rightarrow> Some (a # below))
      else None)"
| "tree_iter_children n h [] = Some []"
| "tree_iter_children n h (c # cs) =
     (case tree_iter n h c of
        None \<Rightarrow> None
      | Some xs \<Rightarrow> (case tree_iter_children n h cs of None \<Rightarrow> None | Some ys \<Rightarrow> Some (xs @ ys)))"

definition copy_without_permalink :: "string \<Rightarrow> cell list \<Rightarrow> nat \<Rightarrow> cell" where
  \<comment> \<open>the heading of address \<open>a\<close> as it is to be reported\<close>
  "copy_without_permalink permalink_class h a =
     (if c_children (h ! a) \<noteq> []
         \<and> map_of (c_attrib (h ! last (c_children (h ! a)))) ''class'' = Some permalink_class
      then (h ! a)\<lparr>c_children := butlast (c_children (h ! a))\<rparr>
      else h ! a)"

section \<open>The nested conversion: \<open>_MarkdownConverter\<close>\<close>

subsection \<open>Restoring the stash\<close>

text \<open>
  \<open>md.convert\<close> returns a \<open>str\<close>. The loop over the stash wraps each result in
  \<open>markupsafe.Markup\<close>, whose \<open>replace\<close> escapes the arguments that are plain \<open>str\<close> before
  it replaces. The placeholders and the stashed texts are plain \<open>str\<close>
  (\<open>dict[str, str]\<close>).
\<close>

datatype pystr = Str string | Markup string

definition content :: "pystr \<Rightarrow> string" where
  "content s = (case s of Str t \<Rightarrow> t | Markup t \<Rightarrow> t)"

definition escape :: "string \<Rightarrow> string" where
  \<comment> \<open>\<open>markupsafe.escape\<close> of a plain \<open>str\<close>\<close>
  "escape s =
     concat (map (\<lambda>c. if c = CHR ''&'' then ''&amp;''
                       else if c = CHR ''<'' then ''&lt;''
                       else if c = CHR ''>'' then ''&gt;''
                       else if c = CHR 0x27 then ''&#39;''
                       else if c = CHR 0x22 then ''&#34;''
                       else [c]) s)"

definition replace_in :: "pystr \<Rightarrow> string \<Rightarrow> string \<Rightarrow> string" where
  \<comment> \<open>\<open>converted.replace(placeholder, stashed)\<close>\<close>
  "replace_in converted placeholder stashed =
     (case converted of
        Str t \<Rightarrow> replace t placeholder stashed
      | Markup t \<Rightarrow> replace t (escape placeholder) (escape stashed))"

fun restore_stash :: "pystr \<Rightarrow> (string \<times> string) list \<Rightarrow> pystr" where
  \<comment> \<open>the loop over \<open>(stash or {}).items()\<close>\<close>
  "restore_stash converted [] = converted"
| "restore_stash converted ((placeholder, stashed) # items) =
     restore_stash (Markup (replace_in converted placeholder stashed)) items"

subsection \<open>The converter\<close>

text \<open>
  A shadow renderer is known by its place in \<open>_md_stack\<close>. Of a renderer the converter
  uses the \<open>id_prefix\<close> of its namespacing transform and the list its harvesting
  transform appends to. That list is an object shared with the converter, so lists are kept
  in a store and named by address. The table \<open>headings\<close> of the host's Insertion transform
  maps a converted text to such an address. \<open>_counter\<close> starts at \<open>0\<close> and is only ever
  incremented. \<open>assigned\<close> is not a field of the source: it records the tokens given to
  \<open>id_prefix\<close>, in order, and nothing reads it. The host renderer is taken as set up,
  with the extension registered.
\<close>

record renderer =
  id_prefix :: string
  harvests_into :: nat

record 'h converter =
  md_stack :: "renderer list"
  counter :: nat
  level :: int
  headings_list :: nat
  lists :: "'h list list"
  host_table :: "(string \<times> nat) list"
  assigned :: "string list"

definition digit :: "nat \<Rightarrow> char" where
  "digit d = ''0123456789'' ! d"

fun str_nat :: "nat \<Rightarrow> string" where
  \<comment> \<open>the decimal digits, as \<open>f"{n}"\<close> prints them\<close>
  "str_nat n = (if n < 10 then [digit n] else str_nat (n div 10) @ [digit (n mod 10)])"

declare str_nat.simps [simp del]

definition namespace_token :: "nat \<Rightarrow> string" where
  \<comment> \<open>\<open>f"exec-{self._counter}--"\<close>\<close>
  "namespace_token n = ''exec-'' @ str_nat n @ ''--''"

definition mimic :: "nat \<Rightarrow> renderer" where
  \<comment> \<open>\<open>_mimic(md, headings)\<close>: an empty prefix, and the list given\<close>
  "mimic headings_address = \<lparr>id_prefix = [], harvests_into = headings_address\<rparr>"

definition index_of :: "nat \<Rightarrow> int \<Rightarrow> nat option" where
  \<comment> \<open>the position that \<open>xs[i]\<close> reads in a list of length \<open>n\<close>; \<open>None\<close> is \<open>IndexError\<close>\<close>
  "index_of n i =
     (let j = (if i < 0 then int n + i else i)
      in if 0 \<le> j \<and> j < int n then Some (nat j) else None)"

function md_prop :: "'h converter \<Rightarrow> 'h converter \<times> nat" where
  \<comment> \<open>the property \<open>_md\<close>: the renderer of the current level, made first if missing\<close>
  "md_prop st =
     (case index_of (length (md_stack st)) (level st) of
        Some i \<Rightarrow> (st, i)
      | None \<Rightarrow> md_prop (st\<lparr>md_stack := md_stack st @ [mimic (headings_list st)]\<rparr>))"
  by pat_completeness auto
termination
  by (relation "measure (\<lambda>st. nat (if 0 \<le> level st
                                     then level st + 1 - int (length (md_stack st))
                                     else - level st - int (length (md_stack st))))")
     (auto simp: index_of_def Let_def split: if_splits)

declare md_prop.simps [simp del]

definition headings_prop :: "'h converter \<Rightarrow> nat \<times> 'h converter" where
  \<comment> \<open>the property \<open>headings\<close>: the list so far, and a new empty list in \<open>_headings\<close>\<close>
  "headings_prop st =
     (headings_list st,
      st\<lparr>headings_list := length (lists st), lists := lists st @ [[]]\<rparr>)"

definition set_id_prefix :: "nat \<Rightarrow> string \<Rightarrow> 'h converter \<Rightarrow> 'h converter" where
  \<comment> \<open>\<open>md.treeprocessors[_IdPrependingTreeprocessor.name].id_prefix = p\<close>\<close>
  "set_id_prefix md p st =
     st\<lparr>md_stack := (md_stack st)[md := (md_stack st ! md)\<lparr>id_prefix := p\<rparr>]\<rparr>"

definition entered :: "'h converter \<Rightarrow> 'h converter \<times> nat" where
  \<comment> \<open>\<open>convert\<close> up to the \<open>try\<close>: the renderer it has chosen, and the state in which
      \<open>md.convert(text)\<close> is called\<close>
  "entered st =
     (case md_prop st of
        (st, md) \<Rightarrow>
          let st = st\<lparr>level := level st + 1\<rparr>;
              st = (set_id_prefix md (namespace_token (counter st)) st)
                     \<lparr>assigned := assigned st @ [namespace_token (counter st)]\<rparr>;
              st = st\<lparr>counter := counter st + 1\<rparr>
          in (st, md))"

definition convert_with ::
  "(nat \<Rightarrow> 'h converter \<Rightarrow> 'h converter \<times> (pyerror + string)) \<Rightarrow> (string \<times> string) list
     \<Rightarrow> 'h converter \<Rightarrow> 'h converter \<times> (pyerror + string)" where
  \<comment> \<open>\<open>convert(text, stash)\<close>, given what \<open>md.convert(text)\<close> does on a renderer\<close>
  "convert_with markdown_convert stash st =
     (case entered st of
        (st, md) \<Rightarrow>
          (case markdown_convert md st of
             (st, outcome) \<Rightarrow>
               let st = st\<lparr>level := level st - 1\<rparr>;
                   st = set_id_prefix md [] st
               in
               (case outcome of
                  Inl e \<Rightarrow> (st, Inl e)
                | Inr converted \<Rightarrow>
                    let converted = restore_stash (Str converted) stash in
                    (case headings_prop st of
                       (hs, st) \<Rightarrow>
                         (st\<lparr>host_table := AList.update (content converted) hs (host_table st)\<rparr>,
                          Inr (content converted))))))"

text \<open>
  What \<open>md.convert(text)\<close> does on a shadow renderer is the work of the Markdown library on
  that text. As far as the converter is concerned, it may execute a block of the fragment,
  which calls \<open>convert\<close> again with a stash and goes on with the outcome (\<open>Invokes\<close>: the
  stash, the run of the inner conversion, and the rest of this run from the html or the
  exception of the call); it may raise (\<open>Raises\<close>); and at the end its tree processors
  run, the namespacing one with the \<open>id_prefix\<close> of the renderer, then the harvesting one,
  which appends to the renderer's list (\<open>Returns\<close>: from the prefix to the harvested
  headings and the html).
\<close>

datatype 'h mdrun =
    Returns "string \<Rightarrow> 'h list \<times> string"
  | Raises pyerror
  | Invokes "(string \<times> string) list" "'h mdrun" "pyerror + string \<Rightarrow> 'h mdrun"

definition report :: "nat \<Rightarrow> 'h list \<Rightarrow> 'h converter \<Rightarrow> 'h converter" where
  \<comment> \<open>\<open>self.headings.append(el)\<close> for each harvested heading, on the renderer's list\<close>
  "report md harvested st =
     st\<lparr>lists := (lists st)[harvests_into (md_stack st ! md)
                       := lists st ! harvests_into (md_stack st ! md) @ harvested]\<rparr>"

primrec markdown_convert ::
  "'h mdrun \<Rightarrow> nat \<Rightarrow> 'h converter \<Rightarrow> 'h converter \<times> (pyerror + string)" where
  "markdown_convert (Returns pipeline) =
     (\<lambda>md st. case pipeline (id_prefix (md_stack st ! md)) of
                 (harvested, html) \<Rightarrow> (report md harvested st, Inr html))"
| "markdown_convert (Raises e) = (\<lambda>md st. (st, Inl e))"
| "markdown_convert (Invokes stash inner continue) =
     (\<lambda>md st. case convert_with (markdown_convert inner) stash st of
                 (st', outcome) \<Rightarrow> markdown_convert (continue outcome) md st')"

definition convert ::
  "'h mdrun \<Rightarrow> (string \<times> string) list \<Rightarrow> 'h converter \<Rightarrow> 'h converter \<times> (pyerror + string)" where
  \<comment> \<open>\<open>convert(text, stash)\<close>, the run being what the Markdown library does on \<open>text\<close>\<close>
  "convert run stash st = convert_with (markdown_convert run) stash st"

definition initial :: "'h converter" where
  \<comment> \<open>\<open>_MarkdownConverter()\<close>\<close>
  "initial = \<lparr>md_stack = [], counter = 0, level = 0, headings_list = 0, lists = [[]],
              host_table = [], assigned = []\<rparr>"

definition recorded :: "'h converter \<Rightarrow> string \<Rightarrow> 'h list option" where
  \<comment> \<open>the headings that the host's table holds for a converted text\<close>
  "recorded st converted =
     (case map_of (host_table st) converted of
        None \<Rightarrow> None
      | Some address \<Rightarrow> Some (lists st ! address))"

definition carries_on :: "'h converter \<Rightarrow> 'h converter \<Rightarrow> bool" where
  \<comment> \<open>what a conversion leaves of the converter: the level as it was, the renderers made so
      far still in place, and the tokens of the counters used added to the record\<close>
  "carries_on st st' \<longleftrightarrow>
     level st' = level st \<and> length (md_stack st) \<le> length (md_stack st')
     \<and> counter st \<le> counter st'
     \<and> assigned st' = assigned st @ map namespace_token [counter st ..< counter st']"

section \<open>Block placement: results\<close>



subsection \<open>Substrings, stripping and joined lines\<close>














section \<open>Registration of the host transforms: results\<close>

lemma extendMarkdown_entries:
  "extendMarkdown tp =
     filter (\<lambda>(n, p). n \<noteq> RemoveHeadings_name) (filter (\<lambda>(n, p). n \<noteq> InsertHeadings_name) tp)
       @ [(InsertHeadings_name, 3), (RemoveHeadings_name, 4)]"
  by (simp add: extendMarkdown_def register_def InsertHeadings_name_def RemoveHeadings_name_def)

lemma removal_runs_before_insertion:
  "\<exists>pre mid post. run_order (extendMarkdown tp)
     = pre @ [RemoveHeadings_name] @ mid @ [InsertHeadings_name] @ post"
proof -
  let ?f = "\<lambda>(n :: string, p :: int). - p"
  let ?l = "sort_key ?f (extendMarkdown tp)"
  have srt: "sorted (map ?f ?l)" by (rule sorted_sort_key)
  have "(RemoveHeadings_name, 4) \<in> set ?l"
    by (simp add: extendMarkdown_entries)
  then obtain a b where l: "?l = a @ (RemoveHeadings_name, 4) # b"
    by (meson split_list)
  have "(InsertHeadings_name, 3) \<in> set ?l"
    by (simp add: extendMarkdown_entries)
  then have "(InsertHeadings_name, 3) \<in> set a \<or> (InsertHeadings_name, 3) \<in> set b"
    using l by (auto simp: InsertHeadings_name_def RemoveHeadings_name_def)
  moreover have "(InsertHeadings_name, 3) \<notin> set a"
  proof
    assume "(InsertHeadings_name, 3) \<in> set a"
    then have "?f (InsertHeadings_name, 3) \<le> ?f (RemoveHeadings_name, 4)"
      using srt unfolding l by (auto simp: sorted_append)
    then show False by simp
  qed
  ultimately obtain b1 b2 where "b = b1 @ (InsertHeadings_name, 3) # b2"
    by (meson split_list)
  with l have "run_order (extendMarkdown tp)
      = map fst a @ [RemoveHeadings_name] @ map fst b1 @ [InsertHeadings_name] @ map fst b2"
    by (simp add: run_order_def)
  then show ?thesis by blast
qed

text \<open>
  C2. \<open>extendMarkdown\<close> registers the Insertion transform at priority \<open>3\<close> and the Removal
  transform at priority \<open>4\<close>. In a host with the table-of-contents builder the order of
  the run is: builder, Removal, Insertion; and in every host the Removal transform runs
  before the Insertion transform, whatever the priority of the builder.
\<close>

theorem extendMarkdown_run_order:
  "run_order (extendMarkdown host_treeprocessors)
     = [''inline'', ''prettify'', ''toc'', RemoveHeadings_name, InsertHeadings_name, ''unescape'']
   \<and> (\<exists>pre mid post. run_order (extendMarkdown treeprocessors)
         = pre @ [RemoveHeadings_name] @ mid @ [InsertHeadings_name] @ post)"
proof
  show "run_order (extendMarkdown host_treeprocessors)
     = [''inline'', ''prettify'', ''toc'', RemoveHeadings_name, InsertHeadings_name, ''unescape'']"
    by (simp add: run_order_def extendMarkdown_def register_def host_treeprocessors_def
        InsertHeadings_name_def RemoveHeadings_name_def)
qed (rule removal_runs_before_insertion)

section \<open>Insertion and Removal: results\<close>





















lemma remove_loop_no_marker:
  "i \<le> length ch \<Longrightarrow> \<forall>e\<in>set (drop i ch). \<not> is_marker e \<Longrightarrow>
   \<forall>e\<in>set (fst (remove_loop i ch carry_text)). \<not> is_marker e"
proof (induction i arbitrary: ch carry_text)
  case 0
  then show ?case by simp
next
  case (Suc i)
  then have lt: "i < length ch" by simp
  let ?el = "ch ! i"
  have d: "drop i ch = ?el # drop (Suc i) ch" using lt by (simp add: Cons_nth_drop_Suc)
  show ?case
  proof (cases "is_marker ?el")
    case True
    let ?ch = "take i ch @ drop (Suc i) ch"
    have "drop i ?ch = drop (Suc i) ch" using lt by simp
    moreover have "i \<le> length ?ch" using lt by simp
    ultimately have "\<forall>e\<in>set (fst (remove_loop i ?ch (or_empty (text_el ?el) @ carry_text))). \<not> is_marker e"
      using Suc.IH [of ?ch] Suc.prems(2) by simp
    then show ?thesis using True lt by (simp add: Let_def)
  next
    case False
    let ?el' = "Element (tag ?el) (attrib ?el) (text_el ?el)
                  (Some (or_empty (tail_el ?el) @ carry_text)) (children ?el)"
    have m: "\<not> is_marker ?el'" using False by (simp add: is_marker_def get_def)
    have "drop i (ch[i := ?el']) = ?el' # drop (Suc i) ch"
      using lt by (simp add: drop_update_cancel Cons_nth_drop_Suc [symmetric] upd_conv_take_nth_drop)
    then have 1: "\<forall>e\<in>set (fst (remove_loop i (ch[i := ?el']) [])). \<not> is_marker e"
      using Suc.IH [of "ch[i := ?el']"] Suc.prems(2) m lt by simp
    have 2: "\<forall>e\<in>set (fst (remove_loop i ch carry_text)). \<not> is_marker e"
      using Suc.IH [of ch] Suc.prems(2) False lt d by simp
    show ?thesis using False lt 1 2 by (simp add: Let_def)
  qed
qed

lemma RemoveHeadings_root_children:
  "\<forall>e\<in>set (children (RemoveHeadings_run root)). \<not> is_marker e"
  using remove_loop_no_marker [of "length (children root)" "children root" "[]"]
  by (auto simp: RemoveHeadings_run_def split: prod.splits)

text \<open>
  C4. The Insertion transform appends the marker container to the paragraph whose text
  matched, below the root. The Removal transform reads the children of the root only
  (\<open>RemoveHeadings_root_children\<close>): on that tree it changes nothing, and the marker
  container is still in the tree it returns.
\<close>

theorem RemoveHeadings_misses_nested_marker:
  "InsertHeadings_run 4 [(''PH'', ''<h1>Title</h1>'')]
     [(''<h1>Title</h1>'', [Element ''h1'' [(''id'', ''exec-0--title'')] (Some ''Title'') None []])]
     (Element ''div'' [] None None [Element ''p'' [] (Some ''PH'') None []])
     = Some (Inr (Element ''div'' [] None None
         [Element ''p'' [] (Some ''PH'') None
            [marker_div [Element ''h1'' [(''id'', ''exec-0--title'')] (Some ''Title'') None []]]]))
   \<and> RemoveHeadings_run (Element ''div'' [] None None
         [Element ''p'' [] (Some ''PH'') None
            [marker_div [Element ''h1'' [(''id'', ''exec-0--title'')] (Some ''Title'') None []]]])
     = Element ''div'' [] None None
         [Element ''p'' [] (Some ''PH'') None
            [marker_div [Element ''h1'' [(''id'', ''exec-0--title'')] (Some ''Title'') None []]]]
   \<and> markers (RemoveHeadings_run (Element ''div'' [] None None
         [Element ''p'' [] (Some ''PH'') None
            [marker_div [Element ''h1'' [(''id'', ''exec-0--title'')] (Some ''Title'') None []]]]))
     = [marker_div [Element ''h1'' [(''id'', ''exec-0--title'')] (Some ''Title'') None []]]"
  by code_simp

section \<open>The heading-harvesting transform: results\<close>

lemma tree_iter_children_valid:
  "tree_iter_children n h cs = Some xs \<Longrightarrow> c \<in> set cs \<Longrightarrow> c < length h"
proof (induction cs arbitrary: xs)
  case Nil
  then show ?case by simp
next
  case (Cons d ds)
  from Cons.prems(1) obtain ys zs where d: "tree_iter n h d = Some ys"
    and ds: "tree_iter_children n h ds = Some zs"
    by (auto split: option.splits)
  have "d < length h" using d by (cases n) (auto split: if_splits)
  with Cons.IH [OF ds] Cons.prems(2) show ?case by auto
qed

lemma harvest_visit_heading:
  assumes "cells st = h @ ex" and "a < length h" and "is_heading_tag (c_tag (h ! a))"
    and "\<And>c. c \<in> set (c_children (h ! a)) \<Longrightarrow> c < length h"
  shows "harvest_visit pc a st
    = Some (st\<lparr>cells := cells st @ [copy_without_permalink pc h a],
                reported := reported st @ [length (cells st)]\<rparr>)"
proof -
  have el: "cells st ! a = h ! a" using assms(1,2) by (simp add: nth_append)
  show ?thesis
  proof (cases "c_children (h ! a) = []")
    case True
    then show ?thesis using assms(3) el
      by (simp add: harvest_visit_def has_permalink_def copy_without_permalink_def Let_def)
  next
    case False
    then have l: "last (c_children (h ! a)) < length h" using assms(4) by simp
    then have "cells st ! last (c_children (h ! a)) = h ! last (c_children (h ! a))"
      using assms(1) by (simp add: nth_append)
    then show ?thesis using False assms(1,3) el l
      by (simp add: harvest_visit_def has_permalink_def copy_without_permalink_def Let_def)
  qed
qed

lemma harvest_visit_other:
  assumes "cells st = h @ ex" and "a < length h" and "\<not> is_heading_tag (c_tag (h ! a))"
  shows "harvest_visit pc a st = Some st"
  using assms by (simp add: harvest_visit_def Let_def nth_append)

lemma harvest_walk_reports:
  "(tree_iter n h a = Some addrs \<longrightarrow> cells st = h @ ex \<longrightarrow>
      harvest_walk n pc a st
        = Some (st\<lparr>cells := cells st @ map (copy_without_permalink pc h)
                                        [x \<leftarrow> addrs. is_heading_tag (c_tag (h ! x))],
                    reported := reported st
                      @ [length (cells st) ..< length (cells st)
                           + length [x \<leftarrow> addrs. is_heading_tag (c_tag (h ! x))]]\<rparr>))
   \<and> (tree_iter_children n h cs = Some addrs \<longrightarrow> cells st = h @ ex \<longrightarrow>
      harvest_walk_children n pc cs st
        = Some (st\<lparr>cells := cells st @ map (copy_without_permalink pc h)
                                        [x \<leftarrow> addrs. is_heading_tag (c_tag (h ! x))],
                    reported := reported st
                      @ [length (cells st) ..< length (cells st)
                           + length [x \<leftarrow> addrs. is_heading_tag (c_tag (h ! x))]]\<rparr>))"
  (is "?P n a addrs st ex \<and> ?Q n cs addrs st ex")
proof -
  let ?hd = "\<lambda>x. is_heading_tag (c_tag (h ! x))"
  let ?grow = "\<lambda>addrs st. st\<lparr>cells := cells st @ map (copy_without_permalink pc h) (filter ?hd addrs),
      reported := reported st @ [length (cells st) ..< length (cells st) + length (filter ?hd addrs)]\<rparr>"
  have grow_append: "?grow ys (?grow xs st) = ?grow (xs @ ys) st" for xs ys and st :: harvest
  proof -
    have "[length (cells st) ..< length (cells st) + length (filter ?hd xs)]
            @ [length (cells st) + length (filter ?hd xs)
                 ..< length (cells st) + length (filter ?hd xs) + length (filter ?hd ys)]
          = [length (cells st) ..< length (cells st) + (length (filter ?hd xs) + length (filter ?hd ys))]"
      by (metis add.assoc upt_add_eq_append le_add1)
    then show ?thesis by simp
  qed
  have Q_of_P: "?Q n cs addrs st ex" if P: "\<And>a addrs st ex. ?P n a addrs st ex"
    for n cs addrs st ex
  proof (induction cs arbitrary: addrs st ex)
    case Nil
    show ?case by auto
  next
    case (Cons c cs)
    show ?case
    proof (intro impI)
      assume t: "tree_iter_children n h (c # cs) = Some addrs" and s: "cells st = h @ ex"
      from t obtain xs ys where c: "tree_iter n h c = Some xs"
        and cs: "tree_iter_children n h cs = Some ys" and addrs: "addrs = xs @ ys"
        by (auto split: option.splits)
      have 1: "harvest_walk n pc c st = Some (?grow xs st)" using P c s by blast
      have "cells (?grow xs st) = h @ (ex @ map (copy_without_permalink pc h) (filter ?hd xs))"
        using s by simp
      then have "harvest_walk_children n pc cs (?grow xs st) = Some (?grow ys (?grow xs st))"
        using Cons.IH cs by blast
      then show "harvest_walk_children n pc (c # cs) st = Some (?grow addrs st)"
        using 1 grow_append [of st xs ys] addrs by simp
    qed
  qed
  have P: "?P n a addrs st ex" for n a addrs st ex
  proof (induction n arbitrary: a addrs st ex)
    case 0
    show ?case by simp
  next
    case (Suc n)
    show ?case
    proof (intro impI)
      assume t: "tree_iter (Suc n) h a = Some addrs" and s: "cells st = h @ ex"
      from t have a: "a < length h" by (auto split: if_splits)
      with t obtain below where b: "tree_iter_children n h (c_children (h ! a)) = Some below"
        and addrs: "addrs = a # below"
        by (auto split: option.splits)
      have valid: "\<And>c. c \<in> set (c_children (h ! a)) \<Longrightarrow> c < length h"
        using tree_iter_children_valid [OF b] .
      have a': "a < length (cells st)" using a s by simp
      show "harvest_walk (Suc n) pc a st = Some (?grow addrs st)"
      proof (cases "?hd a")
        case True
        let ?st = "st\<lparr>cells := cells st @ [copy_without_permalink pc h a],
                reported := reported st @ [length (cells st)]\<rparr>"
        have v: "harvest_visit pc a st = Some ?st"
          using harvest_visit_heading [OF s a True valid] .
        have g: "?st = ?grow [a] st" using True by simp
        have c: "cells ?st = h @ (ex @ [copy_without_permalink pc h a])" using s by simp
        have ch: "c_children (cells ?st ! a) = c_children (h ! a)"
          using a c by (simp add: nth_append)
        have "harvest_walk_children n pc (c_children (h ! a)) ?st = Some (?grow below ?st)"
          using Q_of_P [OF Suc.IH] b c by blast
        moreover have "?grow below ?st = ?grow addrs st"
          unfolding addrs using grow_append [of st "[a]" below] g by simp
        ultimately show ?thesis using v a' ch by simp
      next
        case False
        have v: "harvest_visit pc a st = Some st"
          using harvest_visit_other [OF s a False] .
        have ch: "c_children (cells st ! a) = c_children (h ! a)"
          using a s by (simp add: nth_append)
        have "harvest_walk_children n pc (c_children (h ! a)) st = Some (?grow below st)"
          using Q_of_P [OF Suc.IH] b s by blast
        moreover have "?grow below st = ?grow addrs st" using False addrs by simp
        ultimately show ?thesis using v a' ch by simp
      qed
    qed
  qed
  from P Q_of_P [OF P] show ?thesis by blast
qed

text \<open>
  C8. On a store that holds a tree below the root, the harvesting transform ends and
  leaves every cell of the store as it was. For each element of the tree whose tag is
  \<open>h1\<close> to \<open>h6\<close> or \<open>H1\<close> to \<open>H6\<close>, in document order, it has made one new element, a
  copy of the heading, without its last child when that child has the permalink class, and
  has appended the address of the copy to the shared list.
\<close>

theorem HeadingReporting_run_reports_copies:
  assumes "tree_iter fuel h root = Some elements"
  shows "HeadingReporting_run fuel permalink_class root \<lparr>cells = h, reported = acc\<rparr>
    = Some \<lparr>cells = h @ map (copy_without_permalink permalink_class h)
                          [a \<leftarrow> elements. is_heading_tag (c_tag (h ! a))],
            reported = acc @ [length h ..< length h
                                + length [a \<leftarrow> elements. is_heading_tag (c_tag (h ! a))]]\<rparr>"
  using harvest_walk_reports [of fuel h root elements "\<lparr>cells = h, reported = acc\<rparr>" "[]"
      permalink_class] assms
  by (simp add: HeadingReporting_run_def)

theorem HeadingReporting_run_reports_copies_witness:
  "tree_iter 3
     [\<lparr>c_tag = ''div'', c_attrib = [], c_text = None, c_tail = None, c_children = [1, 4]\<rparr>,
      \<lparr>c_tag = ''h1'', c_attrib = [(''id'', ''t'')], c_text = Some ''T'', c_tail = None,
         c_children = [2, 3]\<rparr>,
      \<lparr>c_tag = ''em'', c_attrib = [], c_text = Some ''e'', c_tail = None, c_children = []\<rparr>,
      \<lparr>c_tag = ''a'', c_attrib = [(''class'', ''headerlink'')], c_text = Some ''P'',
         c_tail = None, c_children = []\<rparr>,
      \<lparr>c_tag = ''H2'', c_attrib = [], c_text = Some ''U'', c_tail = None, c_children = []\<rparr>]
     0 = Some [0, 1, 2, 3, 4]
   \<and> HeadingReporting_run 3 ''headerlink'' 0
     \<lparr>cells =
        [\<lparr>c_tag = ''div'', c_attrib = [], c_text = None, c_tail = None, c_children = [1, 4]\<rparr>,
         \<lparr>c_tag = ''h1'', c_attrib = [(''id'', ''t'')], c_text = Some ''T'', c_tail = None,
            c_children = [2, 3]\<rparr>,
         \<lparr>c_tag = ''em'', c_attrib = [], c_text = Some ''e'', c_tail = None, c_children = []\<rparr>,
         \<lparr>c_tag = ''a'', c_attrib = [(''class'', ''headerlink'')], c_text = Some ''P'',
            c_tail = None, c_children = []\<rparr>,
         \<lparr>c_tag = ''H2'', c_attrib = [], c_text = Some ''U'', c_tail = None, c_children = []\<rparr>],
      reported = []\<rparr>
     = Some \<lparr>cells =
        [\<lparr>c_tag = ''div'', c_attrib = [], c_text = None, c_tail = None, c_children = [1, 4]\<rparr>,
         \<lparr>c_tag = ''h1'', c_attrib = [(''id'', ''t'')], c_text = Some ''T'', c_tail = None,
            c_children = [2, 3]\<rparr>,
         \<lparr>c_tag = ''em'', c_attrib = [], c_text = Some ''e'', c_tail = None, c_children = []\<rparr>,
         \<lparr>c_tag = ''a'', c_attrib = [(''class'', ''headerlink'')], c_text = Some ''P'',
            c_tail = None, c_children = []\<rparr>,
         \<lparr>c_tag = ''H2'', c_attrib = [], c_text = Some ''U'', c_tail = None, c_children = []\<rparr>,
         \<lparr>c_tag = ''h1'', c_attrib = [(''id'', ''t'')], c_text = Some ''T'', c_tail = None,
            c_children = [2]\<rparr>,
         \<lparr>c_tag = ''H2'', c_attrib = [], c_text = Some ''U'', c_tail = None, c_children = []\<rparr>],
      reported = [5, 6]\<rparr>"
proof -
  let ?h = "[\<lparr>c_tag = ''div'', c_attrib = [], c_text = None, c_tail = None, c_children = [1, 4]\<rparr>,
      \<lparr>c_tag = ''h1'', c_attrib = [(''id'', ''t'')], c_text = Some ''T'', c_tail = None,
         c_children = [2, 3]\<rparr>,
      \<lparr>c_tag = ''em'', c_attrib = [], c_text = Some ''e'', c_tail = None, c_children = []\<rparr>,
      \<lparr>c_tag = ''a'', c_attrib = [(''class'', ''headerlink'')], c_text = Some ''P'',
         c_tail = None, c_children = []\<rparr>,
      \<lparr>c_tag = ''H2'', c_attrib = [], c_text = Some ''U'', c_tail = None, c_children = []\<rparr>]"
  have t: "tree_iter 3 ?h 0 = Some [0, 1, 2, 3, 4]" by code_simp
  have e: "\<lparr>cells = ?h @ map (copy_without_permalink ''headerlink'' ?h)
                          [a \<leftarrow> [0, 1, 2, 3, 4]. is_heading_tag (c_tag (?h ! a))],
            reported = [] @ [length ?h ..< length ?h
                                + length [a \<leftarrow> [0, 1, 2, 3, 4]. is_heading_tag (c_tag (?h ! a))]]\<rparr>
     = \<lparr>cells = ?h @ [\<lparr>c_tag = ''h1'', c_attrib = [(''id'', ''t'')], c_text = Some ''T'', c_tail = None,
            c_children = [2]\<rparr>,
         \<lparr>c_tag = ''H2'', c_attrib = [], c_text = Some ''U'', c_tail = None, c_children = []\<rparr>],
      reported = [5, 6]\<rparr>"
    by code_simp
  from HeadingReporting_run_reports_copies [OF t, of "''headerlink''" "[]"] t e
  show ?thesis by simp
qed

section \<open>The nested conversion: results\<close>

subsection \<open>Decimal digits\<close>









subsection \<open>What a conversion leaves of the converter\<close>

lemma carries_on_refl: "carries_on st st"
  by (simp add: carries_on_def)

lemma carries_on_trans: "carries_on a b \<Longrightarrow> carries_on b c \<Longrightarrow> carries_on a c"
proof -
  assume ab: "carries_on a b" and bc: "carries_on b c"
  then have le: "counter a \<le> counter b" "counter b \<le> counter c"
    by (simp_all add: carries_on_def)
  then have "[counter a ..< counter c] = [counter a ..< counter b] @ [counter b ..< counter c]"
    by (metis le_Suc_ex upt_add_eq_append)
  with ab bc show ?thesis by (simp add: carries_on_def)
qed

lemma md_prop_stack:
  "md_prop st = (st1, md) \<Longrightarrow>
     (\<exists>made. st1 = st\<lparr>md_stack := md_stack st @ made\<rparr>) \<and> md < length (md_stack st1)"
proof (induction st arbitrary: st1 md rule: md_prop.induct)
  case (1 st)
  show ?case
  proof (cases "index_of (length (md_stack st)) (level st)")
    case None
    let ?st = "st\<lparr>md_stack := md_stack st @ [mimic (headings_list st)]\<rparr>"
    from None 1(2) have "md_prop ?st = (st1, md)" by (simp add: md_prop.simps [of st])
    from 1(1) [OF None this] obtain made where
      "st1 = ?st\<lparr>md_stack := md_stack ?st @ made\<rparr>" and lt: "md < length (md_stack st1)"
      by blast
    then have "st1 = st\<lparr>md_stack := md_stack st @ ([mimic (headings_list st)] @ made)\<rparr>"
      by simp
    with lt show ?thesis by blast
  next
    case (Some i)
    with 1(2) have "st1 = st" "md = i" by (simp_all add: md_prop.simps [of st])
    moreover have "i < length (md_stack st)"
      using Some by (auto simp: index_of_def Let_def split: if_splits)
    moreover have "st = st\<lparr>md_stack := md_stack st @ []\<rparr>" by simp
    ultimately show ?thesis by blast
  qed
qed

lemma entered_state:
  assumes "entered st = (st1, md)"
  shows "level st1 = level st + 1" and "counter st1 = Suc (counter st)"
    and "assigned st1 = assigned st @ [namespace_token (counter st)]"
    and "length (md_stack st) \<le> length (md_stack st1)"
    and "md < length (md_stack st1)"
    and "id_prefix (md_stack st1 ! md) = namespace_token (counter st)"
proof -
  obtain st0 where p: "md_prop st = (st0, md)"
    using assms by (auto simp: entered_def Let_def split: prod.splits)
  from md_prop_stack [OF p] obtain made where
    st0: "st0 = st\<lparr>md_stack := md_stack st @ made\<rparr>" and lt: "md < length (md_stack st0)"
    by blast
  have st1: "st1 = (set_id_prefix md (namespace_token (counter st0)) (st0\<lparr>level := level st0 + 1\<rparr>))
      \<lparr>assigned := assigned st0 @ [namespace_token (counter st0)], counter := counter st0 + 1\<rparr>"
    using assms p by (simp add: entered_def Let_def set_id_prefix_def)
  show "level st1 = level st + 1" by (simp add: st1 st0 set_id_prefix_def)
  show "counter st1 = Suc (counter st)" by (simp add: st1 st0 set_id_prefix_def)
  show "assigned st1 = assigned st @ [namespace_token (counter st)]"
    by (simp add: st1 st0 set_id_prefix_def)
  show "length (md_stack st) \<le> length (md_stack st1)" by (simp add: st1 st0 set_id_prefix_def)
  show "md < length (md_stack st1)" using lt by (simp add: st1 set_id_prefix_def)
  show "id_prefix (md_stack st1 ! md) = namespace_token (counter st)"
    using lt by (simp add: st1 st0 set_id_prefix_def)
qed

lemma convert_with_leaves:
  assumes f: "\<And>md s s' r. f md s = (s', r) \<Longrightarrow> carries_on s s'"
    and e: "entered st = (st1, md)"
    and c: "convert_with f stash st = (st', outcome)"
  shows "carries_on st st'" and "counter st < counter st'"
    and "md < length (md_stack st')" and "id_prefix (md_stack st' ! md) = []"
proof -
  obtain st2 r where r: "f md st1 = (st2, r)" by (cases "f md st1")
  note en = entered_state [OF e]
  have co: "carries_on st1 st2" using f r by blast
  let ?st3 = "set_id_prefix md [] (st2\<lparr>level := level st2 - 1\<rparr>)"
  have lt: "md < length (md_stack st2)" using en(5) co by (simp add: carries_on_def)
  have st': "st' = ?st3 \<or> (\<exists>h. st' = (snd (headings_prop ?st3))
      \<lparr>host_table := AList.update h (fst (headings_prop ?st3)) (host_table (snd (headings_prop ?st3)))\<rparr>)"
    using c e r by (auto simp: convert_with_def Let_def split: sum.splits prod.splits)
  have 3: "level ?st3 = level st" "length (md_stack ?st3) = length (md_stack st2)"
    "counter ?st3 = counter st2" "assigned ?st3 = assigned st2"
    "id_prefix (md_stack ?st3 ! md) = []"
    using co en lt by (simp_all add: set_id_prefix_def carries_on_def)
  have same: "level st' = level ?st3 \<and> md_stack st' = md_stack ?st3 \<and> counter st' = counter ?st3
      \<and> assigned st' = assigned ?st3"
    using st' by (auto simp: headings_prop_def)
  have up: "[counter st ..< counter st2] = counter st # [counter st1 ..< counter st2]"
    using en(2) co by (simp add: carries_on_def upt_conv_Cons)
  show "carries_on st st'"
    using same 3 co en up by (simp add: carries_on_def)
  show "counter st < counter st'" using same 3 co en by (simp add: carries_on_def)
  show "md < length (md_stack st')" using same 3 lt by simp
  show "id_prefix (md_stack st' ! md) = []" using same 3 by simp
qed

lemma markdown_convert_leaves:
  "markdown_convert run md st = (st', outcome) \<Longrightarrow> carries_on st st'"
proof (induction run arbitrary: md st st' outcome)
  case (Returns pipeline)
  then show ?case
    by (auto simp: carries_on_def report_def split: prod.splits)
next
  case (Raises e)
  then show ?case by (simp add: carries_on_refl)
next
  case (Invokes stash inner continue)
  obtain st1 r where c: "convert_with (markdown_convert inner) stash st = (st1, r)"
    by (cases "convert_with (markdown_convert inner) stash st")
  obtain st0 md0 where e: "entered st = (st0, md0)" by (cases "entered st")
  have 1: "carries_on st st1"
    using convert_with_leaves(1) [OF _ e c] Invokes.IH(1) by blast
  have "markdown_convert (continue r) md st1 = (st', outcome)"
    using Invokes.prems c by simp
  then have "carries_on st1 st'" using Invokes.IH(2) [of "continue r"] by blast
  with 1 show ?case by (rule carries_on_trans)
qed

text \<open>
  C5. When \<open>md.convert\<close> raises in a call of \<open>convert\<close>, by itself or from a nested call,
  \<open>convert\<close> returns that same error; the level is then what it was on entry, and the
  \<open>id_prefix\<close> of the renderer chosen for the call is empty.
\<close>

theorem convert_failure_restores:
  assumes "entered st = (st1, md)"
    and "markdown_convert run md st1 = (st2, Inl e)"
  shows "\<exists>st'. convert run stash st = (st', Inl e)
           \<and> level st' = level st
           \<and> md < length (md_stack st') \<and> id_prefix (md_stack st' ! md) = []"
proof -
  have c: "convert_with (markdown_convert run) stash st
      = (set_id_prefix md [] (st2\<lparr>level := level st2 - 1\<rparr>), Inl e)"
    using assms by (simp add: convert_with_def Let_def)
  note l = convert_with_leaves [OF markdown_convert_leaves assms(1) c]
  from l(1) have "level (set_id_prefix md [] (st2\<lparr>level := level st2 - 1\<rparr>)) = level st"
    by (simp add: carries_on_def)
  with c l(3,4) show ?thesis by (simp add: convert_def)
qed

theorem convert_failure_restores_witness:
  "entered (initial :: string converter)
     = (\<lparr>md_stack = [\<lparr>id_prefix = ''exec-0--'', harvests_into = 0\<rparr>], counter = 1, level = 1,
         headings_list = 0, lists = [[]], host_table = [], assigned = [''exec-0--'']\<rparr>, 0)
   \<and> (\<exists>st'. convert (Invokes [] (Raises (ConversionError ''boom''))
                       (\<lambda>r. case r of Inl e \<Rightarrow> Raises e | Inr html \<Rightarrow> Returns (\<lambda>p. ([], html))))
                [] (initial :: string converter)
           = (st', Inl (ConversionError ''boom''))
        \<and> level st' = level (initial :: string converter)
        \<and> 0 < length (md_stack st') \<and> id_prefix (md_stack st' ! 0) = [])"
proof -
  let ?run = "Invokes [] (Raises (ConversionError ''boom''))
                (\<lambda>r. case r of Inl e \<Rightarrow> Raises e | Inr html \<Rightarrow> Returns (\<lambda>p. ([], html)))
              :: string mdrun"
  let ?st1 = "\<lparr>md_stack = [\<lparr>id_prefix = ''exec-0--'', harvests_into = 0\<rparr>], counter = 1, level = 1,
         headings_list = 0, lists = [[]], host_table = [], assigned = [''exec-0--'']\<rparr>
         :: string converter"
  let ?st2 = "\<lparr>md_stack = [\<lparr>id_prefix = ''exec-0--'', harvests_into = 0\<rparr>,
                            \<lparr>id_prefix = [], harvests_into = 0\<rparr>], counter = 2, level = 1,
         headings_list = 0, lists = [[]], host_table = [],
         assigned = [''exec-0--'', ''exec-1--'']\<rparr> :: string converter"
  have e: "entered (initial :: string converter) = (?st1, 0)" by code_simp
  have m: "markdown_convert ?run 0 ?st1 = (?st2, Inl (ConversionError ''boom''))" by code_simp
  from convert_failure_restores [OF e m, of "[]"] e show ?thesis by blast
qed



text \<open>
  C1. Two calls of \<open>convert\<close> in a row, each on a fragment with one heading. After the
  first call the table holds its heading, and the list of the renderer still holds it too:
  the property \<open>headings\<close> has put a new list in \<open>_headings\<close>, and the renderer kept the
  old one. The second call is recorded with no heading, and its heading is in the sequence
  recorded for the first call.
\<close>

theorem convert_second_call_records_nothing:
  "(case convert (Returns (\<lambda>prefix. ([prefix @ ''a''], ''<h1>A</h1>''))) [] initial of
      (st1, html1) \<Rightarrow>
        (case convert (Returns (\<lambda>prefix. ([prefix @ ''b''], ''<h1>B</h1>''))) [] st1 of
           (st2, html2) \<Rightarrow>
             (html1, recorded st1 ''<h1>A</h1>'',
              lists st1 ! harvests_into (md_stack st1 ! 0),
              html2, recorded st2 ''<h1>B</h1>'', recorded st2 ''<h1>A</h1>'')))
   = (Inr ''<h1>A</h1>'', Some [''exec-0--a''], [''exec-0--a''],
      Inr ''<h1>B</h1>'', Some [], Some [''exec-0--a'', ''exec-1--b''])"
  by code_simp

text \<open>
  C7. A stash of two placeholders, both in the converted text. The first is replaced on a
  \<open>str\<close>, by the stashed html as it stands; the second on the \<open>Markup\<close> made in the first
  round, by the escaped form of the stashed html.
\<close>

theorem convert_escapes_second_stashed_html:
  "restore_stash (Str ''<p>P1 P2</p>'') [(''P1'', ''<b>x</b>''), (''P2'', ''<i>y</i>'')]
     = Markup ''<p><b>x</b> &lt;i&gt;y&lt;/i&gt;</p>''
   \<and> snd (convert (Returns (\<lambda>prefix. ([], ''<p>P1 P2</p>'')))
             [(''P1'', ''<b>x</b>''), (''P2'', ''<i>y</i>'')] (initial :: string converter))
     = Inr ''<p><b>x</b> &lt;i&gt;y&lt;/i&gt;</p>''
   \<and> contains ''P2'' ''<p>P1 P2</p>''
   \<and> \<not> contains ''<i>y</i>'' ''<p><b>x</b> &lt;i&gt;y&lt;/i&gt;</p>''"
  by code_simp

end
